theory Spec2Isabelle
  imports Main "HOL-Library.Word"
begin

section \<open>The slog provider for Iris: a bounded hand-off queue with record conversion\<close>

text \<open>
  A shallow embedding of \<^verbatim>\<open>slog_provider.go\<close>. The provider holds a
  buffered channel of slog records and a signal channel \<^verbatim>\<open>closed\<close>;
  \<^verbatim>\<open>Handle\<close> and \<^verbatim>\<open>Read\<close> are each one Go \<^verbatim>\<open>select\<close>
  statement over these channels, \<^verbatim>\<open>Close\<close> closes the signal channel under a
  \<^verbatim>\<open>sync.Once\<close>, and \<^verbatim>\<open>convertSlogRecord\<close> turns a slog record into
  an Iris record.
\<close>

subsection \<open>The records of \<^verbatim>\<open>log/slog\<close>\<close>

text \<open>
  A \<^verbatim>\<open>slog.Value\<close> is a tagged union; \<^verbatim>\<open>Kind()\<close> reads the tag.
  The payload of a float64 is kept as its 64 bits, a duration as its int64 count of
  nanoseconds, a time as an instant number, and the boxed Go value of an
  \<^verbatim>\<open>Any\<close> or \<^verbatim>\<open>LogValuer\<close> as an identifier: the provider only carries
  these payloads from one record to the other.
\<close>

datatype slog_Kind =
  KindAny | KindBool | KindDuration | KindFloat64 | KindInt64
  | KindString | KindTime | KindUint64 | KindGroup | KindLogValuer

datatype slog_Value =
  AnyValue nat
  | BoolValue bool
  | DurationValue "64 word"
  | Float64Value "64 word"
  | Int64Value "64 word"
  | StringValue string
  | TimeValue int
  | Uint64Value "64 word"
  | GroupValue "(string \<times> slog_Value) list"
  | LogValuerValue nat

fun Kind :: "slog_Value \<Rightarrow> slog_Kind" where
  "Kind (AnyValue _) = KindAny"
| "Kind (BoolValue _) = KindBool"
| "Kind (DurationValue _) = KindDuration"
| "Kind (Float64Value _) = KindFloat64"
| "Kind (Int64Value _) = KindInt64"
| "Kind (StringValue _) = KindString"
| "Kind (TimeValue _) = KindTime"
| "Kind (Uint64Value _) = KindUint64"
| "Kind (GroupValue _) = KindGroup"
| "Kind (LogValuerValue _) = KindLogValuer"

text \<open>
  The typed accessors of \<^verbatim>\<open>slog.Value\<close> panic when the kind of the value is
  not the one they read. \<^verbatim>\<open>String()\<close> never panics: it returns the string
  of a string value and a rendering of every other value; the rendering is done by the
  \<^verbatim>\<open>fmt\<close> package and is a parameter \<open>render\<close> here.
\<close>

datatype panic =
  WrongKind slog_Kind slog_Kind | CloseOfClosedChannel | MakeChanSizeOutOfRange

definition Value_Bool :: "slog_Value \<Rightarrow> panic + bool" where
  "Value_Bool v = (case v of BoolValue b \<Rightarrow> Inr b | _ \<Rightarrow> Inl (WrongKind (Kind v) KindBool))"

definition Value_Duration :: "slog_Value \<Rightarrow> panic + 64 word" where
  "Value_Duration v =
     (case v of DurationValue d \<Rightarrow> Inr d | _ \<Rightarrow> Inl (WrongKind (Kind v) KindDuration))"

definition Value_Float64 :: "slog_Value \<Rightarrow> panic + 64 word" where
  "Value_Float64 v =
     (case v of Float64Value x \<Rightarrow> Inr x | _ \<Rightarrow> Inl (WrongKind (Kind v) KindFloat64))"

definition Value_Int64 :: "slog_Value \<Rightarrow> panic + 64 word" where
  "Value_Int64 v = (case v of Int64Value i \<Rightarrow> Inr i | _ \<Rightarrow> Inl (WrongKind (Kind v) KindInt64))"

definition Value_Time :: "slog_Value \<Rightarrow> panic + int" where
  "Value_Time v = (case v of TimeValue t \<Rightarrow> Inr t | _ \<Rightarrow> Inl (WrongKind (Kind v) KindTime))"

definition Value_Uint64 :: "slog_Value \<Rightarrow> panic + 64 word" where
  "Value_Uint64 v =
     (case v of Uint64Value u \<Rightarrow> Inr u | _ \<Rightarrow> Inl (WrongKind (Kind v) KindUint64))"

definition Value_String :: "(slog_Value \<Rightarrow> string) \<Rightarrow> slog_Value \<Rightarrow> string" where
  "Value_String render v = (case v of StringValue s \<Rightarrow> s | _ \<Rightarrow> render v)"

record slog_Attr =
  Key :: string
  Value :: slog_Value

text \<open>
  A \<^verbatim>\<open>slog.Record\<close>: \<^verbatim>\<open>slog.Level\<close> is a Go \<^verbatim>\<open>int\<close>, only ever
  compared here, and the attributes are the sequence that \<^verbatim>\<open>Attrs\<close> visits.
\<close>

record slog_Record =
  Time :: int
  Message :: string
  Level :: int
  attrs :: "slog_Attr list"

definition LevelDebug :: int where "LevelDebug = - 4"
definition LevelInfo :: int where "LevelInfo = 0"
definition LevelWarn :: int where "LevelWarn = 4"

text \<open>
  \<^verbatim>\<open>Record.Attrs(f)\<close> calls \<^verbatim>\<open>f\<close> on each attribute in order and stops
  at the first call that returns false. The callback updates the state \<open>s\<close> it closes
  over and may panic.
\<close>

fun Attrs :: "(slog_Attr \<Rightarrow> 's \<Rightarrow> panic + bool \<times> 's) \<Rightarrow> slog_Attr list \<Rightarrow> 's \<Rightarrow> panic + 's" where
  "Attrs f [] s = Inr s"
| "Attrs f (a # as) s =
     (case f a s of
        Inl e \<Rightarrow> Inl e
      | Inr (continue, s') \<Rightarrow> if continue then Attrs f as s' else Inr s')"

subsection \<open>The records of Iris\<close>

text \<open>The four Iris levels that the provider names, and their order.\<close>

datatype iris_Level = Debug | Info | Warn | Error

fun level_rank :: "iris_Level \<Rightarrow> nat" where
  "level_rank Debug = 0"
| "level_rank Info = 1"
| "level_rank Warn = 2"
| "level_rank Error = 3"

definition level_le :: "iris_Level \<Rightarrow> iris_Level \<Rightarrow> bool" where
  "level_le a b = (level_rank a \<le> level_rank b)"

text \<open>One constructor of \<^verbatim>\<open>iris.Field\<close> for each field constructor the provider calls.\<close>

datatype iris_Field =
  iris_String string string
  | iris_Int64 string "64 word"
  | iris_Uint64 string "64 word"
  | iris_Float64 string "64 word"
  | iris_Bool string bool
  | iris_Dur string "64 word"
  | iris_Time string int

record iris_Record =
  RLevel :: iris_Level
  Msg :: string
  rfields :: "iris_Field list"

definition NewRecord :: "iris_Level \<Rightarrow> string \<Rightarrow> iris_Record" where
  "NewRecord level msg = \<lparr>RLevel = level, Msg = msg, rfields = []\<rparr>"

text \<open>
  Modelled from the spec: \<^verbatim>\<open>Record.AddField\<close> belongs to the Iris library and
  is not part of this repository. The record holds at most a fixed number of fields
  (\<open>maxFields\<close>, 32 according to the comment on \<^verbatim>\<open>convertSlogRecord\<close>); while
  there is room the field is appended and the call returns true, afterwards the record is
  left as it is and the call returns false.
\<close>

definition AddField :: "nat \<Rightarrow> iris_Field \<Rightarrow> iris_Record \<Rightarrow> bool \<times> iris_Record" where
  "AddField maxFields field record =
     (if length (rfields record) \<ge> maxFields then (False, record)
      else (True, record\<lparr>rfields := rfields record @ [field]\<rparr>))"

subsection \<open>Record conversion\<close>

definition convertLevel :: "int \<Rightarrow> iris_Level" where
  "convertLevel slogLevel =
     (if slogLevel \<le> LevelDebug then Debug
      else if slogLevel \<le> LevelInfo then Info
      else if slogLevel \<le> LevelWarn then Warn
      else Error)"

definition convertAttribute :: "(slog_Value \<Rightarrow> string) \<Rightarrow> slog_Attr \<Rightarrow> panic + iris_Field" where
  "convertAttribute render attr =
     (let key = Key attr; value = Value attr in
      case Kind value of
        KindString \<Rightarrow> Inr (iris_String key (Value_String render value))
      | KindInt64 \<Rightarrow> map_sum id (iris_Int64 key) (Value_Int64 value)
      | KindUint64 \<Rightarrow> map_sum id (iris_Uint64 key) (Value_Uint64 value)
      | KindFloat64 \<Rightarrow> map_sum id (iris_Float64 key) (Value_Float64 value)
      | KindBool \<Rightarrow> map_sum id (iris_Bool key) (Value_Bool value)
      | KindDuration \<Rightarrow> map_sum id (iris_Dur key) (Value_Duration value)
      | KindTime \<Rightarrow> map_sum id (iris_Time key) (Value_Time value)
      | _ \<Rightarrow> Inr (iris_String key (Value_String render value)))"

definition convertSlogRecord ::
  "nat \<Rightarrow> (slog_Value \<Rightarrow> string) \<Rightarrow> slog_Record \<Rightarrow> panic + iris_Record" where
  "convertSlogRecord maxFields render slogRec =
     Attrs (\<lambda>attr record.
              case convertAttribute render attr of
                Inl e \<Rightarrow> Inl e
              | Inr field \<Rightarrow> Inr (AddField maxFields field record))
       (attrs slogRec)
       (NewRecord (convertLevel (Level slogRec)) (Message slogRec))"

text \<open>
  The function literal that \<^verbatim>\<open>convertSlogRecord\<close> passes to
  \<^verbatim>\<open>Attrs\<close>, under a name.
\<close>

definition add_converted ::
  "nat \<Rightarrow> (slog_Value \<Rightarrow> string) \<Rightarrow> slog_Attr \<Rightarrow> iris_Record \<Rightarrow> panic + bool \<times> iris_Record" where
  "add_converted m render attr record =
     (case convertAttribute render attr of
        Inl e \<Rightarrow> Inl e
      | Inr field \<Rightarrow> Inr (AddField m field record))"

text \<open>
  The conversion in the words of the specification: a dispatch on the type tag of the
  value, and the prefix of the converted attributes that fits the field limit.
\<close>

fun spec_field :: "(slog_Value \<Rightarrow> string) \<Rightarrow> string \<Rightarrow> slog_Value \<Rightarrow> iris_Field" where
  "spec_field render k (StringValue s) = iris_String k s"
| "spec_field render k (Int64Value i) = iris_Int64 k i"
| "spec_field render k (Uint64Value u) = iris_Uint64 k u"
| "spec_field render k (Float64Value x) = iris_Float64 k x"
| "spec_field render k (BoolValue b) = iris_Bool k b"
| "spec_field render k (DurationValue d) = iris_Dur k d"
| "spec_field render k (TimeValue t) = iris_Time k t"
| "spec_field render k v = iris_String k (render v)"

definition spec_record :: "nat \<Rightarrow> (slog_Value \<Rightarrow> string) \<Rightarrow> slog_Record \<Rightarrow> iris_Record" where
  "spec_record maxFields render r =
     \<lparr>RLevel = convertLevel (Level r), Msg = Message r,
      rfields = take maxFields (map (\<lambda>a. spec_field render (Key a) (Value a)) (attrs r))\<rparr>"

section \<open>The hand-off queue\<close>

subsection \<open>Contexts, channels and \<^verbatim>\<open>select\<close>\<close>

text \<open>
  A Go error is its message; \<open>None\<close> is \<^verbatim>\<open>nil\<close>. A
  \<^verbatim>\<open>context.Context\<close> is seen through \<^verbatim>\<open>Done()\<close> and \<^verbatim>\<open>Err()\<close>
  only: while the context is live \<^verbatim>\<open>Done()\<close> is open and \<^verbatim>\<open>Err()\<close> is
  \<^verbatim>\<open>nil\<close>; once it is cancelled or expired \<^verbatim>\<open>Done()\<close> is closed and
  \<^verbatim>\<open>Err()\<close> is the reason. A context is therefore its reason, if any.
\<close>

type_synonym go_error = string

type_synonym Context = "go_error option"

definition ctx_Done :: "Context \<Rightarrow> bool" where
  "ctx_Done ctx = (ctx \<noteq> None)"

definition ctx_Err :: "Context \<Rightarrow> go_error option" where
  "ctx_Err ctx = ctx"

text \<open>
  The provider: \<open>records\<close> is the content of the buffered channel
  \<^verbatim>\<open>p.records\<close>, oldest first, and \<open>cap\<close> its capacity; \<open>closed\<close> says
  whether the channel \<^verbatim>\<open>p.closed\<close> has been closed; \<open>once\<close> says whether
  \<^verbatim>\<open>p.once\<close> has run its function. The channel \<^verbatim>\<open>p.records\<close> itself is
  never closed by the provider, so a send on it never panics. The state is the one a call
  finds when no other call is waiting on the channels: a send can proceed only into free
  buffer space and a receive only from the buffer.
\<close>

record Provider =
  records :: "slog_Record list"
  cap :: nat
  closed :: bool
  once :: bool

text \<open>
  \<^verbatim>\<open>make(chan T, n)\<close> panics (\<^verbatim>\<open>makechan: size out of range\<close>) when \<open>n\<close>
  is negative or the buffer would exceed what the runtime can allocate. The largest
  buffer size that the runtime accepts depends on the platform and is the parameter
  \<open>maxChanSize\<close>.
\<close>

definition New :: "int \<Rightarrow> int \<Rightarrow> panic + Provider" where
  "New maxChanSize bufferSize =
     (if bufferSize < 0 \<or> maxChanSize < bufferSize then Inl MakeChanSizeOutOfRange
      else Inr \<lparr>records = [], cap = nat bufferSize, closed = False, once = False\<rparr>)"

text \<open>
  A \<^verbatim>\<open>select\<close> statement: each communication case either can proceed, and then
  has an outcome, or cannot. If at least one case can proceed, any one of those may be
  the one that runs (Go chooses among them at random, whatever their order in the
  source); otherwise the default case runs if there is one; otherwise the statement
  blocks. The result lists the outcomes that may be observed; the empty list means that
  the call does not return in this state.
\<close>

definition go_select :: "'a option list \<Rightarrow> 'a option \<Rightarrow> 'a list" where
  "go_select comms dflt =
     (let ready = List.map_filter id comms in
      if ready \<noteq> [] then ready
      else (case dflt of Some d \<Rightarrow> [d] | None \<Rightarrow> []))"

datatype select_case = CaseSend | CaseRecv | CaseCtxDone | CaseClosed | CaseDefault

record 'r outcome =
  branch :: select_case
  returned :: 'r
  post :: Provider

subsection \<open>\<^verbatim>\<open>Handle\<close>, \<^verbatim>\<open>Read\<close> and \<^verbatim>\<open>Close\<close>\<close>

text \<open>
  \<^verbatim>\<open>Handle\<close>, called while no reader is parked in \<^verbatim>\<open>Read\<close>: the send on
  \<^verbatim>\<open>p.records\<close> can proceed when the buffer has room, the receive on
  \<^verbatim>\<open>p.closed\<close> when that channel is closed.
\<close>

definition Handle :: "Provider \<Rightarrow> Context \<Rightarrow> slog_Record \<Rightarrow> go_error option outcome list" where
  "Handle p ctx record =
     go_select
       [if length (records p) < cap p
        then Some \<lparr>branch = CaseSend, returned = None,
                   post = p\<lparr>records := records p @ [record]\<rparr>\<rparr>
        else None,
        if closed p
        then Some \<lparr>branch = CaseClosed, returned = Some ''slog provider closed'', post = p\<rparr>
        else None]
       (Some \<lparr>branch = CaseDefault, returned = None, post = p\<rparr>)"

text \<open>
  \<^verbatim>\<open>Read\<close>: the receive on \<^verbatim>\<open>p.records\<close> can proceed when a record is
  buffered, the receive on \<^verbatim>\<open>ctx.Done()\<close> when the context is done, the receive
  on \<^verbatim>\<open>p.closed\<close> when that channel is closed. There is no default case.
\<close>

type_synonym read_result = "panic + iris_Record option \<times> go_error option"

definition Read ::
  "nat \<Rightarrow> (slog_Value \<Rightarrow> string) \<Rightarrow> Provider \<Rightarrow> Context \<Rightarrow> read_result outcome list" where
  "Read maxFields render p ctx =
     go_select
       [case records p of
          [] \<Rightarrow> None
        | record # rest \<Rightarrow>
            Some \<lparr>branch = CaseRecv,
                  returned = map_sum id (\<lambda>r. (Some r, None))
                               (convertSlogRecord maxFields render record),
                  post = p\<lparr>records := rest\<rparr>\<rparr>,
        if ctx_Done ctx
        then Some \<lparr>branch = CaseCtxDone, returned = Inr (None, ctx_Err ctx), post = p\<rparr>
        else None,
        if closed p
        then Some \<lparr>branch = CaseClosed, returned = Inr (None, None), post = p\<rparr>
        else None]
       None"

text \<open>
  A call of \<^verbatim>\<open>Read\<close> that finds none of its cases ready is parked on the channels
  until one of them becomes ready; this can only be while the buffer is empty, the
  provider open and the context live.
\<close>

definition reader_can_park :: "Provider \<Rightarrow> bool" where
  "reader_can_park p = (records p = [] \<and> \<not> closed p)"

text \<open>
  \<^verbatim>\<open>Handle\<close> while another goroutine may be parked in \<^verbatim>\<open>Read\<close>. A send on
  a channel on which a receiver is parked hands the value to that receiver and does not
  use the buffer; on a channel of capacity 0 this is the only way a send proceeds.
  Without a parked receiver the send proceeds when the buffer has room, as in
  \<open>Handle\<close>. Each outcome comes with the record that the parked reader receives, if
  any.
\<close>

definition Handle_parked ::
  "bool \<Rightarrow> Provider \<Rightarrow> Context \<Rightarrow> slog_Record
     \<Rightarrow> (go_error option outcome \<times> slog_Record option) list" where
  "Handle_parked reader_parked p ctx record =
     go_select
       [if reader_parked
        then Some (\<lparr>branch = CaseSend, returned = None, post = p\<rparr>, Some record)
        else if length (records p) < cap p
        then Some (\<lparr>branch = CaseSend, returned = None,
                    post = p\<lparr>records := records p @ [record]\<rparr>\<rparr>, None)
        else None,
        if closed p
        then Some (\<lparr>branch = CaseClosed, returned = Some ''slog provider closed'',
                    post = p\<rparr>, None)
        else None]
       (Some (\<lparr>branch = CaseDefault, returned = None, post = p\<rparr>, None))"

text \<open>
  \<^verbatim>\<open>Close\<close>: closing a channel that is already closed panics; \<^verbatim>\<open>once.Do\<close>
  runs its function on the first call only.
\<close>

definition close_chan :: "bool \<Rightarrow> panic + bool" where
  "close_chan c = (if c then Inl CloseOfClosedChannel else Inr True)"

definition Close :: "Provider \<Rightarrow> panic + go_error option \<times> Provider" where
  "Close p =
     (if once p then Inr (None, p)
      else (case close_chan (closed p) of
              Inl e \<Rightarrow> Inl e
            | Inr c \<Rightarrow> Inr (None, p\<lparr>closed := c, once := True\<rparr>)))"

subsection \<open>Sequences of calls\<close>

text \<open>
  A call on the provider, what its caller observes, and the runs of a sequence of calls
  made one after the other: every way the calls may return, with the provider left at
  the end. A call that blocks or panics ends the run there, so it has no run.
\<close>

datatype call = CallHandle Context slog_Record | CallRead Context | CallClose

datatype observation =
  HandleReturned select_case "go_error option"
  | ReadReturned select_case "iris_Record option" "go_error option"
  | CloseReturned "go_error option"

fun step ::
  "nat \<Rightarrow> (slog_Value \<Rightarrow> string) \<Rightarrow> call \<Rightarrow> Provider \<Rightarrow> (observation \<times> Provider) list" where
  "step maxFields render (CallHandle ctx record) p =
     map (\<lambda>out. (HandleReturned (branch out) (returned out), post out)) (Handle p ctx record)"
| "step maxFields render (CallRead ctx) p =
     concat (map (\<lambda>out. case returned out of
                           Inl e \<Rightarrow> []
                         | Inr (r, err) \<Rightarrow> [(ReadReturned (branch out) r err, post out)])
               (Read maxFields render p ctx))"
| "step maxFields render CallClose p =
     (case Close p of Inl e \<Rightarrow> [] | Inr (err, p') \<Rightarrow> [(CloseReturned err, p')])"

fun runs ::
  "nat \<Rightarrow> (slog_Value \<Rightarrow> string) \<Rightarrow> call list \<Rightarrow> Provider
     \<Rightarrow> (observation list \<times> Provider) list" where
  "runs maxFields render [] p = [([], p)]"
| "runs maxFields render (c # cs) p =
     concat (map (\<lambda>(ob, p'). map (\<lambda>(obs, p''). (ob # obs, p'')) (runs maxFields render cs p'))
               (step maxFields render c p))"

text \<open>The records that a sequence of observations hands to the consumer, in order.\<close>

fun delivered :: "observation list \<Rightarrow> iris_Record list" where
  "delivered [] = []"
| "delivered (ReadReturned b (Some r) err # obs) = r # delivered obs"
| "delivered (ob # obs) = delivered obs"

text \<open>
  What holds of every provider made by \<^verbatim>\<open>New\<close> and used through its methods:
  the signal channel is closed exactly when \<^verbatim>\<open>once\<close> has run, and the buffer
  holds no more than its capacity.
\<close>

definition provider_inv :: "Provider \<Rightarrow> bool" where
  "provider_inv p = ((once p = closed p) \<and> length (records p) \<le> cap p)"

text \<open>
  A record as the tests build it: \<^verbatim>\<open>slog.NewRecord(time.Now(), slog.LevelInfo, msg, 0)\<close>,
  at instant 0.
\<close>

definition example_record :: "string \<Rightarrow> slog_Record" where
  "example_record msg = \<lparr>Time = 0, Message = msg, Level = LevelInfo, attrs = []\<rparr>"

section \<open>Properties of the conversion\<close>

lemma convertAttribute_spec:
  "convertAttribute render attr = Inr (spec_field render (Key attr) (Value attr))"
  by (cases "Value attr")
    (simp_all add: convertAttribute_def Value_String_def Value_Int64_def Value_Uint64_def
      Value_Float64_def Value_Bool_def Value_Duration_def Value_Time_def)

lemma add_converted_full:
  "m \<le> length (rfields rec) \<Longrightarrow> add_converted m render a rec = Inr (False, rec)"
  by (simp add: add_converted_def convertAttribute_spec AddField_def)

lemma add_converted_room:
  "length (rfields rec) < m \<Longrightarrow>
   add_converted m render a rec =
     Inr (True, rec\<lparr>rfields := rfields rec @ [spec_field render (Key a) (Value a)]\<rparr>)"
  by (simp add: add_converted_def convertAttribute_spec AddField_def)

lemma Attrs_add_converted:
  "Attrs (add_converted m render) as rec =
   Inr (rec\<lparr>rfields := rfields rec @
          take (m - length (rfields rec)) (map (\<lambda>a. spec_field render (Key a) (Value a)) as)\<rparr>)"
proof (induction as arbitrary: rec)
  case Nil
  show ?case by simp
next
  case (Cons a as)
  show ?case
  proof (cases "m \<le> length (rfields rec)")
    case True
    then show ?thesis by (simp add: add_converted_full)
  next
    case False
    then obtain k where k: "m - length (rfields rec) = Suc k"
      by (cases "m - length (rfields rec)") auto
    then have k': "m - Suc (length (rfields rec)) = k" by simp
    from False have room: "length (rfields rec) < m" by simp
    show ?thesis
      by (simp add: add_converted_room [OF room] Cons.IH k k')
  qed
qed

lemma convertSlogRecord_spec:
  "convertSlogRecord maxFields render r = Inr (spec_record maxFields render r)"
  proof -
  have "convertSlogRecord maxFields render r =
        Attrs (add_converted maxFields render) (attrs r)
          (NewRecord (convertLevel (Level r)) (Message r))"
    unfolding convertSlogRecord_def add_converted_def ..
  then show ?thesis
    by (simp add: Attrs_add_converted NewRecord_def spec_record_def)
qed

lemma convertLevel_buckets:
  "(convertLevel l = Debug) = (l \<le> LevelDebug)"
  "(convertLevel l = Info) = (LevelDebug < l \<and> l \<le> LevelInfo)"
  "(convertLevel l = Warn) = (LevelInfo < l \<and> l \<le> LevelWarn)"
  "(convertLevel l = Error) = (LevelWarn < l)"
  by (auto simp: convertLevel_def LevelDebug_def LevelInfo_def LevelWarn_def)

lemma convertLevel_mono: "a \<le> b \<Longrightarrow> level_le (convertLevel a) (convertLevel b)"
  by (auto simp: convertLevel_def level_le_def LevelDebug_def LevelInfo_def LevelWarn_def)

lemma convertLevel_range: "range convertLevel = {Debug, Info, Warn, Error}"
proof
  show "range convertLevel \<subseteq> {Debug, Info, Warn, Error}"
    by (auto simp: convertLevel_def)
  have "convertLevel (- 4) = Debug" "convertLevel 0 = Info" "convertLevel 4 = Warn"
    "convertLevel 8 = Error"
    by (simp_all add: convertLevel_def LevelDebug_def LevelInfo_def LevelWarn_def)
  then show "{Debug, Info, Warn, Error} \<subseteq> range convertLevel"
    by (metis insert_subset empty_subsetI rangeI)
qed


text \<open>
  C8: record conversion is total. Every slog record is converted without a panic to the
  Iris record that has the message of the source, the level of its bucket (at most
  debug, at most info, at most warn, above warn), and as fields the attributes converted
  by their type tag (string, int64, uint64, float64, bool, duration and time to the field
  of the same type, any other kind to a string field holding the rendering of the
  value), in order, cut to the first \<open>maxFields\<close> of them.
\<close>

theorem convertSlogRecord_total:
  "convertSlogRecord maxFields render r = Inr (spec_record maxFields render r)
   \<and> convertAttribute render a = Inr (spec_field render (Key a) (Value a))
   \<and> Msg (spec_record maxFields render r) = Message r
   \<and> RLevel (spec_record maxFields render r) =
       (if Level r \<le> - 4 then Debug else if Level r \<le> 0 then Info
        else if Level r \<le> 4 then Warn else Error)
   \<and> rfields (spec_record maxFields render r) =
       take maxFields (map (\<lambda>a. spec_field render (Key a) (Value a)) (attrs r))"
  by (simp add: convertSlogRecord_spec convertAttribute_spec spec_record_def convertLevel_def
      LevelDebug_def LevelInfo_def LevelWarn_def)

theorem convertSlogRecord_total_witness:
  "convertSlogRecord 2 (\<lambda>v. ''?'')
     \<lparr>Time = 0, Message = ''m'', Level = 3,
      attrs = [\<lparr>Key = ''a'', Value = Int64Value 7\<rparr>, \<lparr>Key = ''b'', Value = AnyValue 1\<rparr>,
               \<lparr>Key = ''c'', Value = BoolValue True\<rparr>]\<rparr>
   = Inr \<lparr>RLevel = Warn, Msg = ''m'', rfields = [iris_Int64 ''a'' 7, iris_String ''b'' ''?'']\<rparr>"
  using convertSlogRecord_total [of 2 "\<lambda>v. ''?''"
      "\<lparr>Time = 0, Message = ''m'', Level = 3,
        attrs = [\<lparr>Key = ''a'', Value = Int64Value 7\<rparr>, \<lparr>Key = ''b'', Value = AnyValue 1\<rparr>,
                 \<lparr>Key = ''c'', Value = BoolValue True\<rparr>]\<rparr>"]
  by (simp add: spec_record_def convertLevel_def LevelDebug_def LevelInfo_def LevelWarn_def)

text \<open>
  C9: level conversion is monotone for the order Debug, Info, Warn, Error, and the levels
  it produces are exactly these four.
\<close>

theorem convertLevel_monotone:
  "a \<le> b \<Longrightarrow>
   level_le (convertLevel a) (convertLevel b) \<and> range convertLevel = {Debug, Info, Warn, Error}"
  by (simp add: convertLevel_mono convertLevel_range)

theorem convertLevel_monotone_witness:
  "(- 4 :: int) \<le> 0 \<and> level_le (convertLevel (- 4)) (convertLevel 0)
   \<and> convertLevel (- 4) = Debug \<and> convertLevel 0 = Info"
  using convertLevel_monotone [of "- 4" 0]
  by (simp add: convertLevel_def LevelDebug_def LevelInfo_def)

section \<open>Properties of the hand-off queue\<close>

lemma go_select_simps:
  "go_select [] d = (case d of Some x \<Rightarrow> [x] | None \<Rightarrow> [])"
  "go_select (Some x # cs) d = x # List.map_filter id cs"
  "go_select (None # cs) d = go_select cs d"
  by (simp_all add: go_select_def)

lemma Handle_open_room:
  "\<not> closed p \<Longrightarrow> length (records p) < cap p \<Longrightarrow>
   Handle p ctx record =
     [\<lparr>branch = CaseSend, returned = None, post = p\<lparr>records := records p @ [record]\<rparr>\<rparr>]"
  by (simp add: Handle_def go_select_simps)

lemma Handle_open_full:
  "\<not> closed p \<Longrightarrow> cap p \<le> length (records p) \<Longrightarrow>
   Handle p ctx record = [\<lparr>branch = CaseDefault, returned = None, post = p\<rparr>]"
  by (simp add: Handle_def go_select_simps)

lemma Handle_closed_full:
  "closed p \<Longrightarrow> cap p \<le> length (records p) \<Longrightarrow>
   Handle p ctx record =
     [\<lparr>branch = CaseClosed, returned = Some ''slog provider closed'', post = p\<rparr>]"
  by (simp add: Handle_def go_select_simps)

lemma Handle_closed_room:
  "closed p \<Longrightarrow> length (records p) < cap p \<Longrightarrow>
   Handle p ctx record =
     [\<lparr>branch = CaseSend, returned = None, post = p\<lparr>records := records p @ [record]\<rparr>\<rparr>,
      \<lparr>branch = CaseClosed, returned = Some ''slog provider closed'', post = p\<rparr>]"
  by (simp add: Handle_def go_select_simps)

lemma Read_open_live_record:
  "\<not> closed p \<Longrightarrow> records p = r # rs \<Longrightarrow>
   Read maxFields render p None =
     [\<lparr>branch = CaseRecv, returned = Inr (Some (spec_record maxFields render r), None),
       post = p\<lparr>records := rs\<rparr>\<rparr>]"
  by (simp add: Read_def go_select_simps ctx_Done_def convertSlogRecord_spec)

lemma Read_open_live_empty:
  "\<not> closed p \<Longrightarrow> records p = [] \<Longrightarrow> Read maxFields render p None = []"
  by (simp add: Read_def go_select_simps ctx_Done_def)

lemma Read_open_done_empty:
  "\<not> closed p \<Longrightarrow> records p = [] \<Longrightarrow>
   Read maxFields render p (Some reason) =
     [\<lparr>branch = CaseCtxDone, returned = Inr (None, Some reason), post = p\<rparr>]"
  by (simp add: Read_def go_select_simps ctx_Done_def ctx_Err_def)

lemma Read_closed_live_empty:
  "closed p \<Longrightarrow> records p = [] \<Longrightarrow>
   Read maxFields render p None = [\<lparr>branch = CaseClosed, returned = Inr (None, None), post = p\<rparr>]"
  by (simp add: Read_def go_select_simps ctx_Done_def)

lemma Read_closed_live_record:
  "closed p \<Longrightarrow> records p = r # rs \<Longrightarrow>
   Read maxFields render p None =
     [\<lparr>branch = CaseRecv, returned = Inr (Some (spec_record maxFields render r), None),
       post = p\<lparr>records := rs\<rparr>\<rparr>,
      \<lparr>branch = CaseClosed, returned = Inr (None, None), post = p\<rparr>]"
  by (simp add: Read_def go_select_simps ctx_Done_def convertSlogRecord_spec)

lemma Read_outcome_cases:
  "out \<in> set (Read maxFields render p ctx) \<Longrightarrow>
   (\<exists>r rs. records p = r # rs \<and>
      out = \<lparr>branch = CaseRecv, returned = Inr (Some (spec_record maxFields render r), None),
             post = p\<lparr>records := rs\<rparr>\<rparr>)
   \<or> (\<exists>reason. ctx = Some reason \<and>
        out = \<lparr>branch = CaseCtxDone, returned = Inr (None, Some reason), post = p\<rparr>)
   \<or> (closed p \<and> out = \<lparr>branch = CaseClosed, returned = Inr (None, None), post = p\<rparr>)"
  by (cases "records p"; cases ctx; cases "closed p")
     (auto simp: Read_def go_select_simps ctx_Done_def ctx_Err_def
        convertSlogRecord_spec)

lemma Handle_outcome_cases:
  "out \<in> set (Handle p ctx record) \<Longrightarrow>
   (length (records p) < cap p \<and>
      out = \<lparr>branch = CaseSend, returned = None, post = p\<lparr>records := records p @ [record]\<rparr>\<rparr>)
   \<or> (closed p \<and>
        out = \<lparr>branch = CaseClosed, returned = Some ''slog provider closed'', post = p\<rparr>)
   \<or> (\<not> closed p \<and> cap p \<le> length (records p) \<and>
        out = \<lparr>branch = CaseDefault, returned = None, post = p\<rparr>)"
  by (cases "length (records p) < cap p"; cases "closed p")
     (auto simp: Handle_def go_select_simps)

lemma Handle_never_blocks: "Handle p ctx record \<noteq> []"
  by (cases "length (records p) < cap p"; cases "closed p")
     (auto simp: Handle_def go_select_simps)


lemma Handle_outcome_iff:
  "(out \<in> set (Handle p ctx record)) =
   ((length (records p) < cap p \<and>
      out = \<lparr>branch = CaseSend, returned = None, post = p\<lparr>records := records p @ [record]\<rparr>\<rparr>)
    \<or> (closed p \<and>
        out = \<lparr>branch = CaseClosed, returned = Some ''slog provider closed'', post = p\<rparr>)
    \<or> (\<not> closed p \<and> cap p \<le> length (records p) \<and>
        out = \<lparr>branch = CaseDefault, returned = None, post = p\<rparr>))"
  by (cases "length (records p) < cap p"; cases "closed p")
     (auto simp: Handle_def go_select_simps)

lemma Handle_parked_no_reader:
  "Handle_parked False p ctx record = map (\<lambda>out. (out, None)) (Handle p ctx record)"
  by (cases "length (records p) < cap p"; cases "closed p")
     (simp_all add: Handle_parked_def Handle_def go_select_simps)

lemma Handle_parked_reader:
  "Handle_parked True p ctx record =
     (\<lparr>branch = CaseSend, returned = None, post = p\<rparr>, Some record) #
     (if closed p
      then [(\<lparr>branch = CaseClosed, returned = Some ''slog provider closed'', post = p\<rparr>, None)]
      else [])"
  by (simp add: Handle_parked_def go_select_simps)

lemma Handle_parked_never_blocks: "Handle_parked w p ctx record \<noteq> []"
  by (cases w) (simp_all add: Handle_parked_no_reader Handle_parked_reader Handle_never_blocks)

lemma Handle_parked_outcome_iff:
  "((out, h) \<in> set (Handle_parked w p ctx record)) =
   ((w \<and> h = Some record \<and> out = \<lparr>branch = CaseSend, returned = None, post = p\<rparr>)
    \<or> (\<not> w \<and> length (records p) < cap p \<and> h = None \<and>
        out = \<lparr>branch = CaseSend, returned = None, post = p\<lparr>records := records p @ [record]\<rparr>\<rparr>)
    \<or> (closed p \<and> h = None \<and>
        out = \<lparr>branch = CaseClosed, returned = Some ''slog provider closed'', post = p\<rparr>)
    \<or> (\<not> w \<and> \<not> closed p \<and> cap p \<le> length (records p) \<and> h = None \<and>
        out = \<lparr>branch = CaseDefault, returned = None, post = p\<rparr>))"
proof (cases w)
  case True
  then show ?thesis by (auto simp: Handle_parked_reader)
next
  case False
  then show ?thesis by (auto simp: Handle_parked_no_reader Handle_outcome_iff)
qed

lemma Read_blocks_iff:
  "(Read maxFields render p ctx = []) = (reader_can_park p \<and> \<not> ctx_Done ctx)"
  by (cases "records p"; cases "closed p"; cases ctx)
     (simp_all add: Read_def go_select_simps ctx_Done_def reader_can_park_def)

lemma Read_closed_may_report:
  "closed p \<Longrightarrow>
   \<lparr>branch = CaseClosed, returned = Inr (None, None), post = p\<rparr>
     \<in> set (Read maxFields render p ctx)"
  by (cases "records p"; cases ctx)
     (simp_all add: Read_def go_select_simps ctx_Done_def)

lemma Close_inv:
  "provider_inv p \<Longrightarrow> Close p = Inr (None, p\<lparr>closed := True, once := True\<rparr>)"
  by (cases "once p") (auto simp: Close_def close_chan_def provider_inv_def)

lemma step_Handle_open_room:
  "\<not> closed p \<Longrightarrow> length (records p) < cap p \<Longrightarrow>
   step m rd (CallHandle ctx r) p =
     [(HandleReturned CaseSend None, p\<lparr>records := records p @ [r]\<rparr>)]"
  by (simp add: Handle_open_room)

lemma step_Handle_open_full:
  "\<not> closed p \<Longrightarrow> cap p \<le> length (records p) \<Longrightarrow>
   step m rd (CallHandle ctx r) p = [(HandleReturned CaseDefault None, p)]"
  by (simp add: Handle_open_full)

lemma step_Read_open_live_record:
  "\<not> closed p \<Longrightarrow> records p = r # rs \<Longrightarrow>
   step m rd (CallRead None) p =
     [(ReadReturned CaseRecv (Some (spec_record m rd r)) None, p\<lparr>records := rs\<rparr>)]"
  by (simp add: Read_open_live_record)

lemma step_Close_inv:
  "provider_inv p \<Longrightarrow>
   step m rd CallClose p = [(CloseReturned None, p\<lparr>closed := True, once := True\<rparr>)]"
  by (simp add: Close_inv)

lemma runs_Cons_single:
  "step m rd c p = [(ob, p')] \<Longrightarrow>
   runs m rd (c # cs) p = map (\<lambda>(obs, q). (ob # obs, q)) (runs m rd cs p')"
  by simp

lemma runs_Cons_elim:
  "(obs, q) \<in> set (runs m rd (c # cs) p) \<Longrightarrow>
   \<exists>ob p' obs'. (ob, p') \<in> set (step m rd c p) \<and> (obs', q) \<in> set (runs m rd cs p')
     \<and> obs = ob # obs'"
  by auto

lemma runs_Handle_room:
  "\<not> closed p \<Longrightarrow> length (records p) + length rs \<le> cap p \<Longrightarrow>
   runs m rd (map (CallHandle ctx) rs) p =
     [(map (\<lambda>r. HandleReturned CaseSend None) rs, p\<lparr>records := records p @ rs\<rparr>)]"
proof (induction rs arbitrary: p)
  case Nil
  show ?case by simp
next
  case (Cons r rs)
  let ?p' = "p\<lparr>records := records p @ [r]\<rparr>"
  from Cons.prems have st: "step m rd (CallHandle ctx r) p = [(HandleReturned CaseSend None, ?p')]"
    by (intro step_Handle_open_room) simp_all
  from Cons.prems have "\<not> closed ?p'" "length (records ?p') + length rs \<le> cap ?p'"
    by simp_all
  from Cons.IH [OF this] show ?case
    by (simp only: list.map runs_Cons_single [OF st]) simp
qed

lemma runs_Read_drain:
  "\<not> closed p \<Longrightarrow> records p = xs \<Longrightarrow>
   runs m rd (replicate (length xs) (CallRead None)) p =
     [(map (\<lambda>r. ReadReturned CaseRecv (Some (spec_record m rd r)) None) xs,
       p\<lparr>records := []\<rparr>)]"
proof (induction xs arbitrary: p)
  case Nil
  then show ?case by simp
next
  case (Cons r rs)
  let ?p' = "p\<lparr>records := rs\<rparr>"
  from Cons.prems have st: "step m rd (CallRead None) p =
      [(ReadReturned CaseRecv (Some (spec_record m rd r)) None, ?p')]"
    by (intro step_Read_open_live_record) simp_all
  from Cons.prems have "\<not> closed ?p'" "records ?p' = rs" by simp_all
  from Cons.IH [OF this] show ?case
    by (simp only: length_Cons replicate_Suc runs_Cons_single [OF st]) simp
qed

lemma step_inv:
  "(ob, q) \<in> set (step m rd c p) \<Longrightarrow> provider_inv p \<Longrightarrow>
   provider_inv q \<and> (closed p \<longrightarrow> closed q) \<and> cap q = cap p"
proof (cases c)
  case (CallHandle ctx r)
  assume a: "(ob, q) \<in> set (step m rd c p)" and i: "provider_inv p"
  from a CallHandle obtain out where "out \<in> set (Handle p ctx r)" "q = post out"
    by auto
  with Handle_outcome_cases [of out p ctx r] i show ?thesis
    by (auto simp: provider_inv_def)
next
  case (CallRead ctx)
  assume a: "(ob, q) \<in> set (step m rd c p)" and i: "provider_inv p"
  from a CallRead obtain out where "out \<in> set (Read m rd p ctx)" "q = post out"
    by (auto split: sum.splits)
  with Read_outcome_cases [of out m rd p ctx] i show ?thesis
    by (auto simp: provider_inv_def)
next
  case CallClose
  assume a: "(ob, q) \<in> set (step m rd c p)" and i: "provider_inv p"
  with CallClose show ?thesis
    by (auto simp: Close_inv provider_inv_def)
qed

lemma runs_inv:
  "(obs, q) \<in> set (runs m rd cs p) \<Longrightarrow> provider_inv p \<Longrightarrow>
   provider_inv q \<and> (closed p \<longrightarrow> closed q) \<and> cap q = cap p"
proof (induction cs arbitrary: p obs)
  case Nil
  then show ?case by simp
next
  case (Cons c cs)
  from runs_Cons_elim [OF Cons.prems(1)] obtain ob p' obs' where
    st: "(ob, p') \<in> set (step m rd c p)" and rest: "(obs', q) \<in> set (runs m rd cs p')"
    by blast
  from step_inv [OF st Cons.prems(2)] Cons.IH [OF rest] show ?case by simp
qed

lemma runs_Close_repeat:
  "provider_inv p \<Longrightarrow>
   runs m rd (replicate n CallClose) (p\<lparr>closed := True, once := True\<rparr>) =
     [(replicate n (CloseReturned None), p\<lparr>closed := True, once := True\<rparr>)]"
proof (induction n)
  case 0
  show ?case by simp
next
  case (Suc n)
  let ?q = "p\<lparr>closed := True, once := True\<rparr>"
  from Suc.prems have "provider_inv ?q" by (simp add: provider_inv_def)
  then have st: "step m rd CallClose ?q = [(CloseReturned None, ?q)]"
    by (simp add: Close_inv)
  from Suc.IH [OF Suc.prems] show ?case
    by (simp only: replicate_Suc runs_Cons_single [OF st]) simp
qed

lemma New_inv: "New m n = Inr p \<Longrightarrow> provider_inv p \<and> \<not> closed p \<and> records p = []"
  by (auto simp: New_def provider_inv_def split: if_splits)


lemma step_Read_cases:
  "(ob, q) \<in> set (step m rd (CallRead ctx) p) \<Longrightarrow>
   (\<exists>r rs. records p = r # rs \<and> q = p\<lparr>records := rs\<rparr> \<and>
      ob = ReadReturned CaseRecv (Some (spec_record m rd r)) None)
   \<or> (q = p \<and> (\<exists>b err. ob = ReadReturned b None err))"
proof -
  assume "(ob, q) \<in> set (step m rd (CallRead ctx) p)"
  then obtain out r err where o: "out \<in> set (Read m rd p ctx)" "returned out = Inr (r, err)"
    "ob = ReadReturned (branch out) r err" "q = post out"
    by (auto split: sum.splits)
  from Read_outcome_cases [OF o(1)] o(2-4) show ?thesis by auto
qed

lemma reads_delivered:
  "(obs, q) \<in> set (runs m rd (map CallRead ctxs) p) \<Longrightarrow>
   delivered obs @ map (spec_record m rd) (records q) = map (spec_record m rd) (records p)"
proof (induction ctxs arbitrary: p obs)
  case Nil
  then show ?case by simp
next
  case (Cons c ctxs)
  from Cons.prems have "(obs, q) \<in> set (runs m rd (CallRead c # map CallRead ctxs) p)"
    by simp
  from runs_Cons_elim [OF this] obtain ob p' obs' where
    st: "(ob, p') \<in> set (step m rd (CallRead c) p)"
    and rest: "(obs', q) \<in> set (runs m rd (map CallRead ctxs) p')"
    and obs: "obs = ob # obs'"
    by blast
  from Cons.IH [OF rest] step_Read_cases [OF st] obs show ?case by auto
qed

text \<open>
  C4: records accepted by an open provider within its capacity are read back in the order
  of their acceptance. On an open provider with room for all of \<open>rs\<close>, the calls of
  \<^verbatim>\<open>Handle\<close> on \<open>rs\<close> all take the send case and return \<^verbatim>\<open>nil\<close>; the
  same number of calls of \<^verbatim>\<open>Read\<close> with a live context then return the
  conversions of exactly the buffered records, each once and in that order, and leave the
  buffer empty. Whatever the contexts of a sequence of \<^verbatim>\<open>Read\<close> calls, the
  records delivered followed by those still buffered are the buffered records: none is
  lost, repeated or reordered.
\<close>

theorem Read_delivers_in_order:
  "\<not> closed p \<Longrightarrow> length (records p) + length rs \<le> cap p \<Longrightarrow>
   runs m rd (map (CallHandle ctx) rs) p =
     [(map (\<lambda>r. HandleReturned CaseSend None) rs, p\<lparr>records := records p @ rs\<rparr>)]
   \<and> runs m rd (replicate (length (records p @ rs)) (CallRead None))
        (p\<lparr>records := records p @ rs\<rparr>) =
     [(map (\<lambda>r. ReadReturned CaseRecv (Some (spec_record m rd r)) None) (records p @ rs),
       p\<lparr>records := []\<rparr>)]
   \<and> (\<forall>ctxs obs q.
        (obs, q) \<in> set (runs m rd (map CallRead ctxs) (p\<lparr>records := records p @ rs\<rparr>)) \<longrightarrow>
        delivered obs @ map (spec_record m rd) (records q) =
          map (spec_record m rd) (records p @ rs))"
proof (intro conjI allI impI)
  assume a: "\<not> closed p" "length (records p) + length rs \<le> cap p"
  let ?p' = "p\<lparr>records := records p @ rs\<rparr>"
  from a show "runs m rd (map (CallHandle ctx) rs) p =
     [(map (\<lambda>r. HandleReturned CaseSend None) rs, ?p')]"
    by (rule runs_Handle_room)
  from a have "\<not> closed ?p'" "records ?p' = records p @ rs" by simp_all
  from runs_Read_drain [OF this]
  show "runs m rd (replicate (length (records p @ rs)) (CallRead None)) ?p' =
     [(map (\<lambda>r. ReadReturned CaseRecv (Some (spec_record m rd r)) None) (records p @ rs),
       p\<lparr>records := []\<rparr>)]"
    by simp
  fix ctxs obs q
  assume "(obs, q) \<in> set (runs m rd (map CallRead ctxs) ?p')"
  from reads_delivered [OF this]
  show "delivered obs @ map (spec_record m rd) (records q) =
          map (spec_record m rd) (records p @ rs)"
    by simp
qed


theorem Read_delivers_in_order_witness:
  "runs 32 (\<lambda>v. [])
     [CallHandle None (example_record ''A''), CallHandle None (example_record ''B'')]
     \<lparr>records = [], cap = 2, closed = False, once = False\<rparr> =
     [([HandleReturned CaseSend None, HandleReturned CaseSend None],
       \<lparr>records = [example_record ''A'', example_record ''B''], cap = 2, closed = False,
        once = False\<rparr>)]
   \<and> runs 32 (\<lambda>v. []) [CallRead None, CallRead None]
       \<lparr>records = [example_record ''A'', example_record ''B''], cap = 2, closed = False,
        once = False\<rparr> =
     [([ReadReturned CaseRecv (Some \<lparr>RLevel = Info, Msg = ''A'', rfields = []\<rparr>) None,
        ReadReturned CaseRecv (Some \<lparr>RLevel = Info, Msg = ''B'', rfields = []\<rparr>) None],
       \<lparr>records = [], cap = 2, closed = False, once = False\<rparr>)]"
  using Read_delivers_in_order [of "\<lparr>records = [], cap = 2, closed = False, once = False\<rparr>"
      "[example_record ''A'', example_record ''B'']" 32 "\<lambda>v. []" None]
  by (simp add: example_record_def spec_record_def convertLevel_def LevelDebug_def LevelInfo_def)

text \<open>
  C5 as stated fails at capacity 0: the buffer of a provider made by \<^verbatim>\<open>New(0)\<close>
  always holds exactly its capacity of records, a reader can be parked in
  \<^verbatim>\<open>Read\<close> on it, and \<^verbatim>\<open>Handle\<close> then hands the record to that reader
  through the send case instead of dropping it.
\<close>

theorem Handle_capacity_zero_hands_over:
  "New 1000 0 = Inr \<lparr>records = [], cap = 0, closed = False, once = False\<rparr>
   \<and> \<not> closed \<lparr>records = [], cap = 0, closed = False, once = False\<rparr>
   \<and> length (records \<lparr>records = [], cap = 0, closed = False, once = False\<rparr>) =
       cap \<lparr>records = [], cap = 0, closed = False, once = False\<rparr>
   \<and> Read 32 (\<lambda>v. []) \<lparr>records = [], cap = 0, closed = False, once = False\<rparr> None = []
   \<and> Handle_parked True \<lparr>records = [], cap = 0, closed = False, once = False\<rparr> None
       (example_record ''A'') =
     [(\<lparr>branch = CaseSend, returned = None,
        post = \<lparr>records = [], cap = 0, closed = False, once = False\<rparr>\<rparr>,
       Some (example_record ''A''))]"
  by (simp add: New_def Read_def Handle_parked_def go_select_simps ctx_Done_def)

text \<open>
  C5, amended: on an open provider whose buffer holds as many records as its capacity,
  when the capacity is positive or no reader is parked in \<^verbatim>\<open>Read\<close>,
  \<^verbatim>\<open>Handle\<close> takes the default case: it returns \<^verbatim>\<open>nil\<close>, it does return,
  the provider is unchanged and no reader receives the record. A reader is parked only if
  it can be; with a positive capacity and a full buffer none can. With capacity 2: A and
  B are accepted, C is dropped, a read returns A, D is accepted, two reads return B and
  D.
\<close>

theorem Handle_full_drops:
  "(\<not> closed p \<and> length (records p) = cap p \<and> (reader_parked \<longrightarrow> reader_can_park p)
      \<and> (0 < cap p \<or> \<not> reader_parked) \<longrightarrow>
      Handle_parked reader_parked p ctx record =
        [(\<lparr>branch = CaseDefault, returned = None, post = p\<rparr>, None)])
   \<and> (2 \<le> maxChanSize \<longrightarrow>
        New maxChanSize 2 = Inr \<lparr>records = [], cap = 2, closed = False, once = False\<rparr>)
   \<and> runs m rd
       [CallHandle ctx A, CallHandle ctx B, CallHandle ctx C, CallRead None,
        CallHandle ctx D, CallRead None, CallRead None]
       \<lparr>records = [], cap = 2, closed = False, once = False\<rparr> =
     [([HandleReturned CaseSend None, HandleReturned CaseSend None,
        HandleReturned CaseDefault None,
        ReadReturned CaseRecv (Some (spec_record m rd A)) None,
        HandleReturned CaseSend None,
        ReadReturned CaseRecv (Some (spec_record m rd B)) None,
        ReadReturned CaseRecv (Some (spec_record m rd D)) None],
       \<lparr>records = [], cap = 2, closed = False, once = False\<rparr>)]"
proof (intro conjI impI)
  assume a: "\<not> closed p \<and> length (records p) = cap p
      \<and> (reader_parked \<longrightarrow> reader_can_park p) \<and> (0 < cap p \<or> \<not> reader_parked)"
  then have "\<not> reader_parked" by (auto simp: reader_can_park_def)
  with a show "Handle_parked reader_parked p ctx record =
      [(\<lparr>branch = CaseDefault, returned = None, post = p\<rparr>, None)]"
    by (simp add: Handle_parked_no_reader Handle_open_full)
next
  assume "2 \<le> maxChanSize"
  then show "New maxChanSize 2 = Inr \<lparr>records = [], cap = 2, closed = False, once = False\<rparr>"
    by (simp add: New_def)
next
  show "runs m rd
       [CallHandle ctx A, CallHandle ctx B, CallHandle ctx C, CallRead None,
        CallHandle ctx D, CallRead None, CallRead None]
       \<lparr>records = [], cap = 2, closed = False, once = False\<rparr> =
     [([HandleReturned CaseSend None, HandleReturned CaseSend None,
        HandleReturned CaseDefault None,
        ReadReturned CaseRecv (Some (spec_record m rd A)) None,
        HandleReturned CaseSend None,
        ReadReturned CaseRecv (Some (spec_record m rd B)) None,
        ReadReturned CaseRecv (Some (spec_record m rd D)) None],
       \<lparr>records = [], cap = 2, closed = False, once = False\<rparr>)]"
    by (simp add: Handle_def Read_def go_select_simps ctx_Done_def convertSlogRecord_spec)
qed

theorem Handle_full_drops_witness:
  "\<not> closed \<lparr>records = [example_record ''A''], cap = 1, closed = False, once = False\<rparr>
   \<and> length (records \<lparr>records = [example_record ''A''], cap = 1, closed = False,
        once = False\<rparr>) =
       cap \<lparr>records = [example_record ''A''], cap = 1, closed = False, once = False\<rparr>
   \<and> Handle_parked False
       \<lparr>records = [example_record ''A''], cap = 1, closed = False, once = False\<rparr> None
       (example_record ''B'') =
     [(\<lparr>branch = CaseDefault, returned = None,
        post = \<lparr>records = [example_record ''A''], cap = 1, closed = False, once = False\<rparr>\<rparr>,
       None)]
   \<and> New 1000 2 = Inr \<lparr>records = [], cap = 2, closed = False, once = False\<rparr>"
  using Handle_full_drops
    [of "\<lparr>records = [example_record ''A''], cap = 1, closed = False, once = False\<rparr>"
      False None "example_record ''B''" 1000]
  by simp

text \<open>
  C3 as stated fails: a call of \<^verbatim>\<open>Handle\<close> that stores the record and a call
  that drops it return the same value, \<^verbatim>\<open>nil\<close>.
\<close>

theorem Handle_accepted_dropped_same_value:
  "map returned (Handle \<lparr>records = [], cap = 1, closed = False, once = False\<rparr> None
      (example_record ''A'')) = [None]
   \<and> map branch (Handle \<lparr>records = [], cap = 1, closed = False, once = False\<rparr> None
      (example_record ''A'')) = [CaseSend]
   \<and> map returned (Handle \<lparr>records = [example_record ''A''], cap = 1, closed = False,
      once = False\<rparr> None (example_record ''A'')) = [None]
   \<and> map branch (Handle \<lparr>records = [example_record ''A''], cap = 1, closed = False,
      once = False\<rparr> None (example_record ''A'')) = [CaseDefault]"
  by (simp add: Handle_def go_select_simps)

text \<open>
  C3, amended: \<^verbatim>\<open>Handle\<close> always returns, whether or not a reader is parked in
  \<^verbatim>\<open>Read\<close>, and each of its outcomes is one of these: it returns \<^verbatim>\<open>nil\<close>
  and the record has been accepted (handed to the parked reader, or appended to the buffer,
  which had room); it returns \<^verbatim>\<open>nil\<close> and the record has been dropped (no reader
  parked, provider open, buffer full, provider unchanged); it returns the error
  \<^verbatim>\<open>slog provider closed\<close>, the provider is closed and unchanged and the record is
  not stored. Each of these outcomes occurs whenever its condition holds. So the returned
  value tells the closed outcome from the other two, and does not tell these two apart.
  Without a parked reader \<open>Handle_parked\<close> is \<open>Handle\<close>.
\<close>

theorem Handle_returns_nil_or_closed:
  "Handle_parked w p ctx record \<noteq> []
   \<and> Handle p ctx record \<noteq> []
   \<and> Handle_parked False p ctx record = map (\<lambda>out. (out, None)) (Handle p ctx record)
   \<and> (\<forall>out h.
        ((out, h) \<in> set (Handle_parked w p ctx record)) =
        ((returned out = None \<and> branch out = CaseSend \<and> w \<and> post out = p
            \<and> h = Some record)
         \<or> (returned out = None \<and> branch out = CaseSend \<and> \<not> w
            \<and> length (records p) < cap p
            \<and> post out = p\<lparr>records := records p @ [record]\<rparr> \<and> h = None)
         \<or> (returned out = None \<and> branch out = CaseDefault \<and> \<not> w \<and> \<not> closed p
            \<and> cap p \<le> length (records p) \<and> post out = p \<and> h = None)
         \<or> (returned out = Some ''slog provider closed'' \<and> branch out = CaseClosed
            \<and> closed p \<and> post out = p \<and> h = None)))"
proof (intro conjI allI)
  show "Handle_parked w p ctx record \<noteq> []" by (rule Handle_parked_never_blocks)
  show "Handle p ctx record \<noteq> []" by (rule Handle_never_blocks)
  show "Handle_parked False p ctx record = map (\<lambda>out. (out, None)) (Handle p ctx record)"
    by (rule Handle_parked_no_reader)
next
  fix out :: "go_error option outcome" and h
  have eq: "\<And>b r q. (out = \<lparr>branch = b, returned = r, post = q\<rparr>) =
      (branch out = b \<and> returned out = r \<and> post out = q)"
    by (cases out) auto
  show "((out, h) \<in> set (Handle_parked w p ctx record)) =
        ((returned out = None \<and> branch out = CaseSend \<and> w \<and> post out = p
            \<and> h = Some record)
         \<or> (returned out = None \<and> branch out = CaseSend \<and> \<not> w
            \<and> length (records p) < cap p
            \<and> post out = p\<lparr>records := records p @ [record]\<rparr> \<and> h = None)
         \<or> (returned out = None \<and> branch out = CaseDefault \<and> \<not> w \<and> \<not> closed p
            \<and> cap p \<le> length (records p) \<and> post out = p \<and> h = None)
         \<or> (returned out = Some ''slog provider closed'' \<and> branch out = CaseClosed
            \<and> closed p \<and> post out = p \<and> h = None))"
    unfolding Handle_parked_outcome_iff eq by blast
qed

theorem Handle_returns_nil_or_closed_witness:
  "Handle \<lparr>records = [], cap = 1, closed = True, once = True\<rparr> None (example_record ''A'') =
     [\<lparr>branch = CaseSend, returned = None,
       post = \<lparr>records = [example_record ''A''], cap = 1, closed = True, once = True\<rparr>\<rparr>,
      \<lparr>branch = CaseClosed, returned = Some ''slog provider closed'',
       post = \<lparr>records = [], cap = 1, closed = True, once = True\<rparr>\<rparr>]
   \<and> (\<lparr>branch = CaseClosed, returned = Some ''slog provider closed'',
        post = \<lparr>records = [], cap = 1, closed = True, once = True\<rparr>\<rparr>, None)
     \<in> set (Handle_parked False \<lparr>records = [], cap = 1, closed = True, once = True\<rparr> None
              (example_record ''A''))
   \<and> (\<lparr>branch = CaseSend, returned = None,
        post = \<lparr>records = [example_record ''A''], cap = 1, closed = True, once = True\<rparr>\<rparr>,
       None)
     \<in> set (Handle_parked False \<lparr>records = [], cap = 1, closed = True, once = True\<rparr> None
              (example_record ''A''))"
  using Handle_returns_nil_or_closed
    [of False "\<lparr>records = [], cap = 1, closed = True, once = True\<rparr>" None
      "example_record ''A''"]
  by (simp add: Handle_def go_select_simps)

text \<open>
  C6: \<^verbatim>\<open>Close\<close> is idempotent. On a provider made by \<^verbatim>\<open>New\<close> and used
  through its methods, \<^verbatim>\<open>Close\<close> does not panic and returns \<^verbatim>\<open>nil\<close>;
  any number of calls in a row leaves the provider as one call does, closed; and no
  sequence of calls of any methods opens a closed provider again.
\<close>

theorem Close_idempotent:
  "provider_inv p \<Longrightarrow>
   Close p = Inr (None, p\<lparr>closed := True, once := True\<rparr>)
   \<and> (\<forall>n. runs m rd (replicate (Suc n) CallClose) p =
         [(replicate (Suc n) (CloseReturned None), p\<lparr>closed := True, once := True\<rparr>)])
   \<and> (\<forall>calls obs q. (obs, q) \<in> set (runs m rd calls p) \<longrightarrow>
         provider_inv q \<and> (closed p \<longrightarrow> closed q))"
proof (intro conjI allI impI)
  assume i: "provider_inv p"
  then show "Close p = Inr (None, p\<lparr>closed := True, once := True\<rparr>)" by (rule Close_inv)
  fix n
  from i have st: "step m rd CallClose p =
      [(CloseReturned None, p\<lparr>closed := True, once := True\<rparr>)]"
    by (rule step_Close_inv)
  show "runs m rd (replicate (Suc n) CallClose) p =
      [(replicate (Suc n) (CloseReturned None), p\<lparr>closed := True, once := True\<rparr>)]"
    by (simp only: replicate_Suc runs_Cons_single [OF st] runs_Close_repeat [OF i]) simp
next
  fix calls obs q
  assume "provider_inv p" "(obs, q) \<in> set (runs m rd calls p)"
  from runs_inv [OF this(2,1)] show "provider_inv q" by simp
next
  fix calls obs q
  assume "provider_inv p" "(obs, q) \<in> set (runs m rd calls p)" "closed p"
  from runs_inv [OF this(2,1)] this(3) show "closed q" by simp
qed

theorem Close_idempotent_witness:
  "provider_inv \<lparr>records = [], cap = 2, closed = False, once = False\<rparr>
   \<and> runs 32 (\<lambda>v. []) [CallClose, CallClose, CallClose]
       \<lparr>records = [], cap = 2, closed = False, once = False\<rparr> =
     [([CloseReturned None, CloseReturned None, CloseReturned None],
       \<lparr>records = [], cap = 2, closed = True, once = True\<rparr>)]
   \<and> runs 32 (\<lambda>v. []) [CallClose]
       \<lparr>records = [], cap = 2, closed = False, once = False\<rparr> =
     [([CloseReturned None], \<lparr>records = [], cap = 2, closed = True, once = True\<rparr>)]"
proof -
  have i: "provider_inv \<lparr>records = [], cap = 2, closed = False, once = False\<rparr>"
    by (simp add: provider_inv_def)
  from Close_idempotent [OF i, of 32 "\<lambda>v. []"] i show ?thesis
    by (simp add: Close_def close_chan_def)
qed

text \<open>
  C7: when the context is already done and the provider is open with an empty buffer,
  \<^verbatim>\<open>Read\<close> returns at once, a \<^verbatim>\<open>nil\<close> record with the error of the
  context, which is not \<^verbatim>\<open>nil\<close>.
\<close>

theorem Read_cancelled_when_empty_open:
  "ctx_Done ctx \<Longrightarrow> records p = [] \<Longrightarrow> \<not> closed p \<Longrightarrow>
   Read maxFields render p ctx =
     [\<lparr>branch = CaseCtxDone, returned = Inr (None, ctx_Err ctx), post = p\<rparr>]
   \<and> ctx_Err ctx \<noteq> None"
  by (cases ctx) (simp_all add: ctx_Done_def ctx_Err_def Read_open_done_empty)

theorem Read_cancelled_when_empty_open_witness:
  "ctx_Done (Some ''context canceled'')
   \<and> Read 32 (\<lambda>v. []) \<lparr>records = [], cap = 2, closed = False, once = False\<rparr>
       (Some ''context canceled'') =
     [\<lparr>branch = CaseCtxDone, returned = Inr (None, Some ''context canceled''),
       post = \<lparr>records = [], cap = 2, closed = False, once = False\<rparr>\<rparr>]"
  using Read_cancelled_when_empty_open
    [of "Some ''context canceled''" "\<lparr>records = [], cap = 2, closed = False, once = False\<rparr>"
      32 "\<lambda>v. []"]
  by (simp add: ctx_Done_def ctx_Err_def)

text \<open>
  C10: \<^verbatim>\<open>Read\<close> signals that the provider is closed by a \<^verbatim>\<open>nil\<close> record
  with a \<^verbatim>\<open>nil\<close> error. On a closed provider this outcome is always possible.
  Whenever \<^verbatim>\<open>Read\<close> returns through the closed case the result is
  \<^verbatim>\<open>nil, nil\<close>; and whenever the result is \<^verbatim>\<open>nil, nil\<close>, it was returned
  through the closed case, the provider is closed and the call has left it unchanged:
  no record comes with it.
\<close>

theorem Read_closed_branch_nil_nil:
  "(closed p \<longrightarrow>
      \<lparr>branch = CaseClosed, returned = Inr (None, None), post = p\<rparr>
        \<in> set (Read maxFields render p ctx))
   \<and> (\<forall>out \<in> set (Read maxFields render p ctx).
        (branch out = CaseClosed) = (returned out = Inr (None, None))
        \<and> (returned out = Inr (None, None) \<longrightarrow> closed p \<and> post out = p))"
proof (intro conjI impI ballI)
  assume "closed p"
  then show "\<lparr>branch = CaseClosed, returned = Inr (None, None), post = p\<rparr>
      \<in> set (Read maxFields render p ctx)"
    by (rule Read_closed_may_report)
next
  fix out assume "out \<in> set (Read maxFields render p ctx)"
  from Read_outcome_cases [OF this]
  show "(branch out = CaseClosed) = (returned out = Inr (None, None))" by auto
next
  fix out assume "out \<in> set (Read maxFields render p ctx)"
    and "returned out = Inr (None, None)"
  with Read_outcome_cases [of out maxFields render p ctx]
  show "closed p" by auto
next
  fix out assume "out \<in> set (Read maxFields render p ctx)"
    and "returned out = Inr (None, None)"
  with Read_outcome_cases [of out maxFields render p ctx]
  show "post out = p" by auto
qed

theorem Read_closed_branch_nil_nil_witness:
  "closed \<lparr>records = [example_record ''A''], cap = 2, closed = True, once = True\<rparr>
   \<and> Read 32 (\<lambda>v. []) \<lparr>records = [example_record ''A''], cap = 2, closed = True, once = True\<rparr>
       None =
     [\<lparr>branch = CaseRecv,
       returned = Inr (Some \<lparr>RLevel = Info, Msg = ''A'', rfields = []\<rparr>, None),
       post = \<lparr>records = [], cap = 2, closed = True, once = True\<rparr>\<rparr>,
      \<lparr>branch = CaseClosed, returned = Inr (None, None),
       post = \<lparr>records = [example_record ''A''], cap = 2, closed = True, once = True\<rparr>\<rparr>]"
  using Read_closed_branch_nil_nil
    [of "\<lparr>records = [example_record ''A''], cap = 2, closed = True, once = True\<rparr>"
      32 "\<lambda>v. []" None]
  by (simp add: Read_def go_select_simps ctx_Done_def convertSlogRecord_spec spec_record_def
      example_record_def convertLevel_def LevelDebug_def LevelInfo_def)

text \<open>
  C1: after \<^verbatim>\<open>Close\<close>, with a record still buffered, both the receive from
  \<^verbatim>\<open>p.records\<close> and the receive from \<^verbatim>\<open>p.closed\<close> can proceed, and
  \<^verbatim>\<open>Read\<close> may return \<^verbatim>\<open>nil, nil\<close> with the record left in the buffer.
\<close>

theorem Read_may_report_closed_before_drained:
  "([HandleReturned CaseSend None, CloseReturned None, ReadReturned CaseClosed None None],
    \<lparr>records = [example_record ''A''], cap = 2, closed = True, once = True\<rparr>)
   \<in> set (runs 32 (\<lambda>v. []) [CallHandle None (example_record ''A''), CallClose, CallRead None]
            \<lparr>records = [], cap = 2, closed = False, once = False\<rparr>)"
  by (simp add: Handle_def Read_def Close_def close_chan_def go_select_simps ctx_Done_def
      convertSlogRecord_spec)

text \<open>
  C2: after \<^verbatim>\<open>Close\<close>, while the buffer has room, both the send on
  \<^verbatim>\<open>p.records\<close> and the receive from \<^verbatim>\<open>p.closed\<close> can proceed, and
  \<^verbatim>\<open>Handle\<close> may store the record and return \<^verbatim>\<open>nil\<close>.
\<close>

theorem Handle_may_accept_after_Close:
  "([CloseReturned None, HandleReturned CaseSend None],
    \<lparr>records = [example_record ''A''], cap = 2, closed = True, once = True\<rparr>)
   \<in> set (runs 32 (\<lambda>v. []) [CallClose, CallHandle None (example_record ''A'')]
            \<lparr>records = [], cap = 2, closed = False, once = False\<rparr>)"
  by (simp add: Handle_def Close_def close_chan_def go_select_simps)

end
